theory Spec2Isabelle
  imports Main "HOL-Library.Word"
begin

unbundle bit_operations_syntax

section \<open>Constants of PersistThreads.hpp\<close>

text \<open>
  The macros of the header, evaluated as the C preprocessor and compiler do: every
  literal is \<open>1UL\<close> or \<open>1ULL\<close>, an unsigned 64-bit value on the LP64 targets SPDK
  runs on, so each macro is a \<open>64 word\<close>; \<open><<\<close> is \<open>push_bit\<close>, \<open>>>\<close> is
  \<open>drop_bit\<close>, \<open>/\<close> is unsigned division and \<open>-\<close> wraps.
\<close>

type_synonym u8 = "8 word"
type_synonym u16 = "16 word"
type_synonym u32 = "32 word"
type_synonym u64 = "64 word"
type_synonym i64 = "64 word" \<comment> \<open>\<open>int64_t\<close>: read with \<open>sint\<close>\<close>

definition NUM_IO_THREAD :: nat where
  "NUM_IO_THREAD = 1"

definition NUM_METADATA_THREAD :: nat where
  "NUM_METADATA_THREAD = 1"

definition SPDK_NUM_LOGS_SUPPORTED :: u64 where
  "SPDK_NUM_LOGS_SUPPORTED = push_bit 10 1"

definition SPDK_SEGMENT_BIT :: nat where
  "SPDK_SEGMENT_BIT = 26"

definition SPDK_SEGMENT_SIZE :: u64 where
  "SPDK_SEGMENT_SIZE = push_bit 26 1"



definition SPDK_LOG_METADATA_SIZE :: u64 where
  "SPDK_LOG_METADATA_SIZE = push_bit 15 1"

definition SPDK_LOG_ADDRESS_SPACE :: u64 where
  "SPDK_LOG_ADDRESS_SPACE = drop_bit 6 (push_bit (SPDK_SEGMENT_BIT + 11) 1)"

definition SPDK_NUM_SEGMENTS :: u64 where
  "SPDK_NUM_SEGMENTS = (SPDK_LOG_ADDRESS_SPACE div SPDK_NUM_LOGS_SUPPORTED) - 256"

section \<open>Records of PersistThreads.hpp\<close>

text \<open>
  \<open>PTLogMetadataInfo\<close>: the \<open>fields\<close> member of the union. \<open>name\<close> is the
  256-byte buffer, as the bytes of the name it holds (the bound of 256 is not part of
  the model); \<open>head\<close>, \<open>tail\<close> and \<open>ver\<close> are \<open>int64_t\<close>.
\<close>

record PTLogMetadataInfo =
  name :: "u8 list"
  id' :: u32
  head :: i64
  tail :: i64
  ver :: i64
  inuse :: bool

text \<open>
  \<open>PTLogMetadataAddress\<close>: two arrays of \<open>uint16_t\<close>, of
  \<open>SPDK_LOG_ENTRY_ADDRESS_TABLE_LENGTH\<close> and \<open>SPDK_DATA_ADDRESS_TABLE_LENGTH\<close>
  elements.
\<close>

record PTLogMetadataAddress =
  segment_log_entry_at_table :: "u16 list"
  segment_data_at_table :: "u16 list"

record PTLogMetadata =
  log_metadata_address :: PTLogMetadataAddress
  log_metadata_info :: PTLogMetadataInfo

text \<open>
  \<open>LogEntry\<close>: a union of the \<open>fields\<close> struct and \<open>bytes[64]\<close>. The record is
  the \<open>fields\<close> view; \<open>ver\<close> is \<open>int64_t\<close>, the other four are \<open>uint64_t\<close>.
\<close>

record LogEntry =
  ver :: i64
  dlen :: u64
  ofst :: u64
  hlc_r :: u64
  hlc_l :: u64











text \<open>
  \<open>LogMetadata\<close> holds a pointer to the info part; the comparison dereferences both
  pointers, so the model carries the pointed-to record.
\<close>

record LogMetadata =
  persist_metadata_info :: PTLogMetadataInfo

definition LogMetadata_eq :: "LogMetadata \<Rightarrow> LogMetadata \<Rightarrow> bool" where
  "LogMetadata_eq this other =
     ((head (persist_metadata_info this) = head (persist_metadata_info other))
      \<and> (tail (persist_metadata_info this) = tail (persist_metadata_info other))
      \<and> (PTLogMetadataInfo.ver (persist_metadata_info this)
          = PTLogMetadataInfo.ver (persist_metadata_info other)))"

text \<open>
  An element of \<open>std::bitset<SPDK_NUM_SEGMENTS>\<close> is addressed by a \<open>size_t\<close>;
  assigning such an index to an element of an address table converts it to
  \<open>uint16_t\<close>, which keeps the low 16 bits.
\<close>

definition to_at_table_entry :: "u64 \<Rightarrow> u16" where
  "to_at_table_entry seg = ucast seg"

text \<open>
  The argument structs of the completion callbacks and the sub-request of an atomic write.
  The \<open>void*\<close> buffers are left out; \<open>completed\<close> points to a
  \<open>std::atomic<int>\<close> that the sub-requests of one operation share, so the model keeps
  its address and the cell itself lives in \<open>atomics\<close> below.
\<close>

record atomic_sub_req =
  data_length :: u32
  virtaddress :: u64
  content_type :: int

record data_write_cbfn_args =
  id' :: u32
  ver :: i64
  completed :: nat
  num_sub_req :: int
  io_thread_id :: int
  dlen :: u32
  req_type :: int

record metadata_write_cbfn_args =
  id' :: u32
  ver :: i64
  io_thread_id :: int

text \<open>
  A queued request, by its callback and the callback's arguments:
  \<open>data_write_request_complete\<close> with \<open>data_write_cbfn_args\<close>, or
  \<open>metadata_write_request_complete\<close> with \<open>metadata_write_cbfn_args\<close>.
\<close>

datatype io_request_t =
    DataWrite data_write_cbfn_args
  | MetadataWrite metadata_write_cbfn_args

text \<open>
  The fields of class \<open>PersistThreads\<close> that the operations below read or write, and
  with them the process memory the callbacks share: the cells of the atomic counters
  (\<open>atomics\<close>, with \<open>next_atomic\<close> the next address \<open>new\<close> hands out) and the
  operations marked failed, named by their counter.
\<close>

record PersistThreads =
  io_queue :: "io_request_t list"
  metadata_io_queue :: "io_request_t list"
  global_metadata :: "PTLogMetadata list"
  log_name_to_id :: "u8 list \<rightharpoonup> u32"
  segment_usage_table :: "bool list"
  last_written_ver :: "u32 \<Rightarrow> i64"
  atomics :: "nat \<Rightarrow> int"
  next_atomic :: nat
  failed :: "nat set"

text \<open>An engine with nothing queued, no metadata entry, no segment and no counter in use.\<close>

definition idle :: PersistThreads where
  "idle =
     \<lparr>io_queue = [], metadata_io_queue = [], global_metadata = [], log_name_to_id = Map.empty,
      segment_usage_table = [], last_written_ver = (\<lambda>i. 0), atomics = (\<lambda>c. 0),
      next_atomic = 0, failed = {}\<rparr>"

section \<open>The engine's operations\<close>

text \<open>
  The header declares the operations; their bodies are in PersistThreads.cpp, outside the
  header this development covers. Each definition of this section is therefore written
  from the specification, section by section, over the header's data.
\<close>

datatype error = NoFreeSegment | OffsetBeyondTable | NoFreeSlot | DeviceIOError

subsection \<open>Segment allocator\<close>

text \<open>
  Modelled from the spec: the scan of \<open>allocate_segment\<close> (4.2) for the first clear bit
  of the segment-usage bitset; the header has the bitset and no allocator.
\<close>

fun first_clear_bit :: "bool list \<Rightarrow> nat option" where
  "first_clear_bit [] = None"
| "first_clear_bit (b # bs) = (if b then map_option Suc (first_clear_bit bs) else Some 0)"

text \<open>
  Modelled from the spec: \<open>allocate_segment\<close> (4.2), which the header does not declare.
  It sets the first clear bit and returns its index; with no clear bit the device is full.
  The allocation lock makes the scan and the update one step.
\<close>

definition allocate_segment :: "bool list \<Rightarrow> error + (nat \<times> bool list)" where
  "allocate_segment tbl =
     (case first_clear_bit tbl of
        None \<Rightarrow> Inl NoFreeSegment
      | Some i \<Rightarrow> Inr (i, tbl[i := True]))"

text \<open>
  Modelled from the spec: \<open>n\<close> calls of \<open>allocate_segment\<close> (4.2) by whichever
  callers, in the order in which they get the allocation lock; each call sees the bitset
  the call before it left, and a call that fails leaves it as it was. The results are
  listed in that order.
\<close>

fun allocate_segments :: "nat \<Rightarrow> bool list \<Rightarrow> (error + nat) list" where
  "allocate_segments 0 tbl = []"
| "allocate_segments (Suc n) tbl =
     (case allocate_segment tbl of
        Inl e \<Rightarrow> Inl e # allocate_segments n tbl
      | Inr (i, tbl') \<Rightarrow> Inr i # allocate_segments n tbl')"

text \<open>The segment ids among the results of a run of calls, the failed calls left out.\<close>

fun returned_ids :: "(error + nat) list \<Rightarrow> nat list" where
  "returned_ids [] = []"
| "returned_ids (Inl e # rs) = returned_ids rs"
| "returned_ids (Inr i # rs) = i # returned_ids rs"

subsection \<open>Metadata store and load\<close>

text \<open>
  Modelled from the spec: the two steps of \<open>assign_slot\<close> (4.3) on the metadata array,
  finding an entry whose in-use flag is false (the first one) and marking it in use with
  the name recorded; the header has the array and no body that assigns.
\<close>

fun find_free_entry :: "PTLogMetadata list \<Rightarrow> nat option" where
  "find_free_entry [] = None"
| "find_free_entry (e # es) =
     (if inuse (log_metadata_info e) then map_option Suc (find_free_entry es) else Some 0)"

definition mark_in_use :: "u8 list \<Rightarrow> PTLogMetadata \<Rightarrow> PTLogMetadata" where
  "mark_in_use nm e = e\<lparr>log_metadata_info := (log_metadata_info e)\<lparr>name := nm, inuse := True\<rparr>\<rparr>"

text \<open>
  Modelled from the spec: \<open>assign_slot\<close> (4.3), the part of \<open>load\<close> that finds a
  log's slot; the header does not declare it. It looks the name up in
  \<open>log_name_to_id\<close> first; if the name is absent it takes a free entry, marks it and
  records the slot in the map. The entry-assignment lock makes this one step. With every
  entry in use no slot can be assigned.
\<close>

definition assign_slot :: "u8 list \<Rightarrow> PersistThreads \<Rightarrow> error + (u32 \<times> PersistThreads)" where
  "assign_slot nm pt =
     (case log_name_to_id pt nm of
        Some i \<Rightarrow> Inr (i, pt)
      | None \<Rightarrow>
          (case find_free_entry (global_metadata pt) of
             None \<Rightarrow> Inl NoFreeSlot
           | Some k \<Rightarrow>
               Inr (of_nat k,
                    pt\<lparr>global_metadata :=
                         (global_metadata pt)[k := mark_in_use nm (global_metadata pt ! k)],
                       log_name_to_id := (log_name_to_id pt)(nm \<mapsto> of_nat k)\<rparr>)))"

text \<open>
  Modelled from the spec: \<open>load\<close> (4.6, 6) on an engine whose metadata array is already
  in memory. It locates or assigns the slot and hands the caller the view of the slot's
  info record.
\<close>

definition load :: "u8 list \<Rightarrow> PersistThreads \<Rightarrow> error + (LogMetadata \<times> PersistThreads)" where
  "load nm pt =
     (case assign_slot nm pt of
        Inl e \<Rightarrow> Inl e
      | Inr (i, pt') \<Rightarrow>
          Inr (\<lparr>persist_metadata_info = log_metadata_info (global_metadata pt' ! unat i)\<rparr>, pt'))"

text \<open>Slot assignments for a list of names, one after the other; a failed one changes nothing.\<close>

fun assign_slots :: "u8 list list \<Rightarrow> PersistThreads \<Rightarrow> PersistThreads" where
  "assign_slots [] pt = pt"
| "assign_slots (nm # nms) pt =
     (case assign_slot nm pt of
        Inl e \<Rightarrow> assign_slots nms pt
      | Inr (i, pt') \<Rightarrow> assign_slots nms pt')"

text \<open>The in-use entries that carry a name, by index.\<close>

definition slots_of :: "u8 list \<Rightarrow> PersistThreads \<Rightarrow> nat list" where
  "slots_of nm pt =
     filter (\<lambda>k. inuse (log_metadata_info (global_metadata pt ! k))
                 \<and> name (log_metadata_info (global_metadata pt ! k)) = nm)
       [0..<length (global_metadata pt)]"

text \<open>
  The map and the array agree: a name the map knows is carried by exactly the in-use entry
  the map gives, and a name it does not know by none.
\<close>

definition consistent :: "PersistThreads \<Rightarrow> bool" where
  "consistent pt \<longleftrightarrow>
     length (global_metadata pt) \<le> unat SPDK_NUM_LOGS_SUPPORTED
     \<and> (\<forall>nm i. log_name_to_id pt nm = Some i \<longrightarrow> slots_of nm pt = [unat i])
     \<and> (\<forall>nm. log_name_to_id pt nm = None \<longrightarrow> slots_of nm pt = [])"

subsection \<open>Atomic write coordinator\<close>

text \<open>The status a completion carries: \<open>spdk_nvme_cpl_is_error\<close> or not.\<close>

datatype completion = Success | DeviceError

text \<open>
  Modelled from the spec: the metadata write that belongs to an operation (4.5, step 3),
  for the same log, the same version and the same thread slot as its sub-requests; the
  body of the callback that builds it is missing.
\<close>

definition metadata_write :: "data_write_cbfn_args \<Rightarrow> io_request_t" where
  "metadata_write a =
     MetadataWrite \<lparr>id' = data_write_cbfn_args.id' a, ver = data_write_cbfn_args.ver a,
                    io_thread_id = data_write_cbfn_args.io_thread_id a\<rparr>"

text \<open>
  Modelled from the spec: the callback arguments \<open>atomic_w\<close> gives a sub-request (4.5,
  step 2; the body is missing): log id, target version, the shared counter and the number
  of sub-requests, on I/O thread 0, the only one (\<open>NUM_IO_THREAD\<close>).
\<close>

definition sub_request_args ::
  "u32 \<Rightarrow> i64 \<Rightarrow> nat \<Rightarrow> int \<Rightarrow> atomic_sub_req \<Rightarrow> data_write_cbfn_args" where
  "sub_request_args i v c n r =
     \<lparr>data_write_cbfn_args.id' = i, data_write_cbfn_args.ver = v, completed = c,
      num_sub_req = n, data_write_cbfn_args.io_thread_id = 0,
      data_write_cbfn_args.dlen = data_length r, req_type = content_type r\<rparr>"

text \<open>
  Modelled from the spec: \<open>atomic_w\<close> (4.5, step 2), declared in the header without a
  body. It takes a new counter cell that no sub-request has completed on, and submits
  every sub-request to the data/log queue with arguments that share the cell and carry
  the number of sub-requests, the log id and the version of the target metadata.
\<close>

definition atomic_w ::
  "atomic_sub_req list \<Rightarrow> PTLogMetadataInfo \<Rightarrow> u32 \<Rightarrow> PersistThreads \<Rightarrow> PersistThreads" where
  "atomic_w sub_requests metadata i st =
     (let c = next_atomic st;
          n = int (length sub_requests)
      in st\<lparr>atomics := (atomics st)(c := 0),
            next_atomic := Suc c,
            io_queue := io_queue st
              @ map (\<lambda>r. DataWrite (sub_request_args i (PTLogMetadataInfo.ver metadata) c n r))
                  sub_requests\<rparr>)"

text \<open>
  Modelled from the spec: the outstanding count of an operation (4.5, step 2). The header
  keeps the number of sub-requests and a shared count of the completed ones, so the
  outstanding count is their difference; no body under the header computes it.
\<close>

definition outstanding :: "data_write_cbfn_args \<Rightarrow> PersistThreads \<Rightarrow> int" where
  "outstanding a st = num_sub_req a - atomics st (completed a)"

text \<open>
  Modelled from the spec: \<open>data_write_request_complete\<close> (4.5, step 3 and the failure
  semantics), declared in the header without a body. A completion that reports a device
  error marks the operation failed. Every completion counts on the shared cell; the one
  that brings the outstanding count to zero enqueues the metadata write, unless the
  operation is marked failed.
\<close>

definition data_write_request_complete ::
  "data_write_cbfn_args \<Rightarrow> completion \<Rightarrow> PersistThreads \<Rightarrow> PersistThreads" where
  "data_write_request_complete a cpl st =
     (let st1 = (if cpl = DeviceError then st\<lparr>failed := insert (completed a) (failed st)\<rparr> else st);
          st2 = st1\<lparr>atomics := (atomics st1)(completed a := atomics st1 (completed a) + 1)\<rparr>
      in if outstanding a st2 = 0 \<and> completed a \<notin> failed st2
         then st2\<lparr>metadata_io_queue := metadata_io_queue st2 @ [metadata_write a]\<rparr>
         else st2)"

text \<open>
  Modelled from the spec: \<open>metadata_write_request_complete\<close> (4.5, step 4), declared in
  the header without a body. A successful completion advances \<open>last_written_ver\<close> of
  the log to the version written; nothing else does.
\<close>

definition metadata_write_request_complete ::
  "metadata_write_cbfn_args \<Rightarrow> completion \<Rightarrow> PersistThreads \<Rightarrow> PersistThreads" where
  "metadata_write_request_complete a cpl st =
     (if cpl = DeviceError then st
      else st\<lparr>last_written_ver :=
                (last_written_ver st)
                  (metadata_write_cbfn_args.id' a := metadata_write_cbfn_args.ver a)\<rparr>)"

text \<open>
  What happens around one operation, in the order the engine sees it: callers submit
  atomic writes, and the poll loop of the I/O thread invokes the completion callback of a
  sub-request, of this operation or of another one, in whatever order the device
  completes them.
\<close>

datatype event =
    Submit "atomic_sub_req list" PTLogMetadataInfo u32
  | Complete data_write_cbfn_args completion

fun run :: "event list \<Rightarrow> PersistThreads \<Rightarrow> PersistThreads" where
  "run [] st = st"
| "run (Submit sub_requests metadata i # evs) st = run evs (atomic_w sub_requests metadata i st)"
| "run (Complete a cpl # evs) st = run evs (data_write_request_complete a cpl st)"

text \<open>The completions that fired on counter \<open>c\<close>, in order.\<close>

fun fired :: "nat \<Rightarrow> event list \<Rightarrow> completion list" where
  "fired c [] = []"
| "fired c (Submit sub_requests metadata i # evs) = fired c evs"
| "fired c (Complete a cpl # evs) = (if completed a = c then cpl # fired c evs else fired c evs)"

definition same_operation :: "data_write_cbfn_args \<Rightarrow> data_write_cbfn_args \<Rightarrow> bool" where
  "same_operation a b \<longleftrightarrow>
     data_write_cbfn_args.id' a = data_write_cbfn_args.id' b
     \<and> data_write_cbfn_args.ver a = data_write_cbfn_args.ver b
     \<and> data_write_cbfn_args.io_thread_id a = data_write_cbfn_args.io_thread_id b
     \<and> num_sub_req a = num_sub_req b"

text \<open>
  The callbacks of a trace fit the operation of \<open>a\<close>: one on the operation's counter
  carries the operation's log, version and number of sub-requests, and one on another
  counter belongs to an operation with another metadata write.
\<close>

fun callbacks_of :: "data_write_cbfn_args \<Rightarrow> event list \<Rightarrow> bool" where
  "callbacks_of a [] = True"
| "callbacks_of a (Submit sub_requests metadata i # evs) = callbacks_of a evs"
| "callbacks_of a (Complete b cpl # evs) =
     ((if completed b = completed a then same_operation b a
       else metadata_write b \<noteq> metadata_write a)
      \<and> callbacks_of a evs)"

text \<open>
  A trace of the operation: its callbacks fit, and the device completes each sub-request
  at most once, so no more completions fire on the counter than there are sub-requests.
\<close>

definition trace_of :: "data_write_cbfn_args \<Rightarrow> event list \<Rightarrow> bool" where
  "trace_of a evs \<longleftrightarrow>
     callbacks_of a evs \<and> int (length (fired (completed a) evs)) \<le> num_sub_req a"

text \<open>What a trace has done for the operation of \<open>a\<close>, from state \<open>st\<close> to \<open>st'\<close>.\<close>

definition progress ::
  "data_write_cbfn_args \<Rightarrow> event list \<Rightarrow> PersistThreads \<Rightarrow> PersistThreads \<Rightarrow> bool" where
  "progress a evs st st' \<longleftrightarrow>
     completed a < next_atomic st'
     \<and> atomics st' (completed a) = int (length (fired (completed a) evs))
     \<and> (completed a \<in> failed st' \<longleftrightarrow> DeviceError \<in> set (fired (completed a) evs))
     \<and> (metadata_write a \<in> set (metadata_io_queue st') \<longleftrightarrow>
          int (length (fired (completed a) evs)) = num_sub_req a
          \<and> DeviceError \<notin> set (fired (completed a) evs))
     \<and> last_written_ver st' = last_written_ver st"

section \<open>Geometry\<close>

lemma SPDK_LOG_ADDRESS_SPACE_value: "SPDK_LOG_ADDRESS_SPACE = 2 ^ 31"
  by (simp add: SPDK_LOG_ADDRESS_SPACE_def SPDK_SEGMENT_BIT_def drop_bit_eq_div push_bit_eq_mult)

lemma SPDK_NUM_LOGS_SUPPORTED_value: "SPDK_NUM_LOGS_SUPPORTED = 1024"
  by (simp add: SPDK_NUM_LOGS_SUPPORTED_def)

lemma SPDK_SEGMENT_SIZE_value: "SPDK_SEGMENT_SIZE = 2 ^ 26"
  by (simp add: SPDK_SEGMENT_SIZE_def)

lemma SPDK_NUM_SEGMENTS_value: "SPDK_NUM_SEGMENTS = 2 ^ 21 - 256"
  by (simp add: SPDK_NUM_SEGMENTS_def SPDK_LOG_ADDRESS_SPACE_value SPDK_NUM_LOGS_SUPPORTED_value
      word_div_def)

lemma unat_SPDK_NUM_SEGMENTS: "unat SPDK_NUM_SEGMENTS = 2096896"
  by (simp add: SPDK_NUM_SEGMENTS_value)


text \<open>
  C7, as the header has it: a segment is 64 MB (\<open>2 ^ 26\<close> bytes), and the number of
  segments is the per-log address-space constant divided by the number of supported
  logs, rounded down, less the reserved 256; the subtraction does not wrap.
\<close>

theorem geometry_of_header:
  "SPDK_SEGMENT_SIZE = 64 * 2 ^ 20
   \<and> SPDK_NUM_SEGMENTS = SPDK_LOG_ADDRESS_SPACE div SPDK_NUM_LOGS_SUPPORTED - 256
   \<and> 256 \<le> unat SPDK_LOG_ADDRESS_SPACE div unat SPDK_NUM_LOGS_SUPPORTED
   \<and> unat SPDK_NUM_SEGMENTS
       = unat SPDK_LOG_ADDRESS_SPACE div unat SPDK_NUM_LOGS_SUPPORTED - 256"
proof -
  have "SPDK_SEGMENT_SIZE = 64 * 2 ^ 20"
    by (simp add: SPDK_SEGMENT_SIZE_value)
  moreover have "SPDK_NUM_SEGMENTS = SPDK_LOG_ADDRESS_SPACE div SPDK_NUM_LOGS_SUPPORTED - 256"
    by (simp add: SPDK_NUM_SEGMENTS_def)
  moreover have "256 \<le> unat SPDK_LOG_ADDRESS_SPACE div unat SPDK_NUM_LOGS_SUPPORTED"
    by (simp add: SPDK_LOG_ADDRESS_SPACE_value SPDK_NUM_LOGS_SUPPORTED_value)
  moreover have "unat SPDK_NUM_SEGMENTS
      = unat SPDK_LOG_ADDRESS_SPACE div unat SPDK_NUM_LOGS_SUPPORTED - 256"
    by (simp add: unat_SPDK_NUM_SEGMENTS SPDK_LOG_ADDRESS_SPACE_value
        SPDK_NUM_LOGS_SUPPORTED_value)
  ultimately show ?thesis by blast
qed

text \<open>
  C7 as the specification words it fails on the header in its formula: the number of
  segments is not the per-log address space times the number of logs divided by the
  segment, less 256, whether the address space is taken as 1 TB in bytes, as the constant
  in bytes, or as the constant in 512-byte sectors with the segment counted in sectors.
\<close>

theorem geometry_of_spec_counterexample:
  "unat SPDK_NUM_SEGMENTS
     \<noteq> (2 ^ 40 * unat SPDK_NUM_LOGS_SUPPORTED) div unat SPDK_SEGMENT_SIZE - 256
   \<and> unat SPDK_NUM_SEGMENTS
       \<noteq> (unat SPDK_LOG_ADDRESS_SPACE * unat SPDK_NUM_LOGS_SUPPORTED) div unat SPDK_SEGMENT_SIZE
         - 256
   \<and> unat SPDK_NUM_SEGMENTS
       \<noteq> (unat SPDK_LOG_ADDRESS_SPACE * unat SPDK_NUM_LOGS_SUPPORTED)
           div (unat SPDK_SEGMENT_SIZE div 512) - 256"
  by (simp add: SPDK_LOG_ADDRESS_SPACE_value unat_SPDK_NUM_SEGMENTS
      SPDK_NUM_LOGS_SUPPORTED_value SPDK_SEGMENT_SIZE_value)

section \<open>The log entry record\<close>




















section \<open>Segment ids in the address tables\<close>

lemma unat_ucast_u16: "unat (ucast (ucast (seg :: u64) :: u16) :: u64) = unat seg mod 65536"
  by (simp add: unsigned_ucast_eq take_bit_eq_mod unat_mod_distrib unsigned_take_bit_eq)

lemma to_at_table_entry_truncated:
  assumes "2 ^ 16 \<le> seg"
  shows "ucast (to_at_table_entry seg) \<noteq> seg"
proof
  assume e: "ucast (to_at_table_entry seg) = seg"
  from assms have "65536 \<le> unat seg" by (simp add: word_le_nat_alt)
  moreover from e have "unat seg mod 65536 = unat seg"
    using unat_ucast_u16 [of seg] by (simp add: to_at_table_entry_def)
  moreover have "unat seg mod 65536 < 65536" by simp
  ultimately show False by linarith
qed

lemma to_at_table_entry_kept:
  assumes "seg < 2 ^ 16"
  shows "ucast (to_at_table_entry seg) = seg"
proof -
  from assms have "unat seg < 65536" by (simp add: word_less_nat_alt)
  then have "unat (ucast (ucast seg :: u16) :: u64) = unat seg" by (simp add: unat_ucast_u16)
  then show ?thesis by (simp add: word_unat_eq_iff to_at_table_entry_def)
qed

lemma card_u16_set: "card (S :: u16 set) \<le> 65536"
proof -
  have "card S \<le> card (UNIV :: u16 set)" by (rule card_mono) simp_all
  then show ?thesis by (simp add: card_word)
qed

text \<open>
  C9: the elements of both address tables are 16-bit unsigned values, so the tables of a
  log hold at most \<open>2 ^ 16\<close> distinct segment ids, while the segment-usage bitset has
  \<open>SPDK_NUM_SEGMENTS = 2 ^ 21 - 256\<close> bits, more than \<open>2 ^ 16\<close>. A segment id of
  \<open>2 ^ 16\<close> or more does not survive being stored in a table element; a smaller one
  does.
\<close>

theorem at_table_entry_is_16_bit:
  "unat SPDK_NUM_SEGMENTS = 2 ^ 21 - 256
   \<and> 2 ^ 16 < SPDK_NUM_SEGMENTS
   \<and> card (set (segment_log_entry_at_table a) \<union> set (segment_data_at_table a)) \<le> 2 ^ 16
   \<and> (2 ^ 16 \<le> seg \<longrightarrow> ucast (to_at_table_entry seg) \<noteq> seg)
   \<and> (seg < 2 ^ 16 \<longrightarrow> ucast (to_at_table_entry seg) = seg)"
proof -
  have "unat SPDK_NUM_SEGMENTS = 2 ^ 21 - 256"
    by (simp add: unat_SPDK_NUM_SEGMENTS)
  moreover have "2 ^ 16 < SPDK_NUM_SEGMENTS"
    by (simp add: SPDK_NUM_SEGMENTS_value)
  moreover have "card (set (segment_log_entry_at_table a) \<union> set (segment_data_at_table a)) \<le> 2 ^ 16"
    using card_u16_set [of "set (segment_log_entry_at_table a) \<union> set (segment_data_at_table a)"]
    by simp
  ultimately show ?thesis
    using to_at_table_entry_truncated [of seg] to_at_table_entry_kept [of seg] by blast
qed

text \<open>
  At segment id 65536, which the bitset has a bit for, the stored element reads back as
  a different id; segment id 7 reads back unchanged.
\<close>

theorem at_table_entry_is_16_bit_witness:
  "(2 ^ 16 \<le> (65536 :: u64))
   \<and> ucast (to_at_table_entry 65536) \<noteq> (65536 :: u64)
   \<and> (7 :: u64) < 2 ^ 16 \<and> ucast (to_at_table_entry 7) = (7 :: u64)"
proof -
  have big: "2 ^ 16 \<le> (65536 :: u64)" and small: "(7 :: u64) < 2 ^ 16"
    by simp_all
  from at_table_entry_is_16_bit [of "\<lparr>segment_log_entry_at_table = [], segment_data_at_table = []\<rparr>" 65536] big
  have "ucast (to_at_table_entry 65536) \<noteq> (65536 :: u64)"
    by blast
  moreover
  from at_table_entry_is_16_bit [of "\<lparr>segment_log_entry_at_table = [], segment_data_at_table = []\<rparr>" 7] small
  have "ucast (to_at_table_entry 7) = (7 :: u64)"
    by blast
  ultimately show ?thesis
    using big small by blast
qed

section \<open>Comparison of log metadata\<close>

text \<open>
  C10: \<open>operator==\<close> of \<open>LogMetadata\<close> holds exactly when head, tail and version
  of the two info records agree, and changing name, id or in-use flag of either side does
  not change its result.
\<close>

theorem LogMetadata_eq_compares_head_tail_ver:
  "LogMetadata_eq a b
     = (head (persist_metadata_info a) = head (persist_metadata_info b)
        \<and> tail (persist_metadata_info a) = tail (persist_metadata_info b)
        \<and> PTLogMetadataInfo.ver (persist_metadata_info a)
            = PTLogMetadataInfo.ver (persist_metadata_info b))
   \<and> LogMetadata_eq
        (a\<lparr>persist_metadata_info := (persist_metadata_info a)\<lparr>name := n, PTLogMetadataInfo.id' := i, inuse := u\<rparr>\<rparr>)
        (b\<lparr>persist_metadata_info := (persist_metadata_info b)\<lparr>name := n', PTLogMetadataInfo.id' := i', inuse := u'\<rparr>\<rparr>)
     = LogMetadata_eq a b"
  by (simp add: LogMetadata_eq_def)

section \<open>Segment allocator\<close>

lemma first_clear_bit_Some:
  "first_clear_bit tbl = Some i \<Longrightarrow> i < length tbl \<and> \<not> tbl ! i \<and> (\<forall>j<i. tbl ! j)"
proof (induction tbl arbitrary: i)
  case Nil
  then show ?case by simp
next
  case (Cons b bs)
  show ?case
  proof (cases b)
    case True
    with Cons.prems obtain k where k: "first_clear_bit bs = Some k" and i: "i = Suc k"
      by auto
    from Cons.IH [OF k] True i show ?thesis
      by (auto simp: nth_Cons split: nat.splits)
  next
    case False
    with Cons.prems show ?thesis by simp
  qed
qed

lemma first_clear_bit_None: "first_clear_bit tbl = None \<longleftrightarrow> (\<forall>i<length tbl. tbl ! i)"
proof (induction tbl)
  case Nil
  then show ?case by simp
next
  case (Cons b bs)
  show ?case
  proof (cases b)
    case True
    have "(\<forall>i<length (b # bs). (b # bs) ! i) \<longleftrightarrow> (\<forall>i<length bs. bs ! i)"
      using True by (auto simp: nth_Cons split: nat.splits)
    with Cons.IH True show ?thesis by simp
  next
    case False
    then show ?thesis by auto
  qed
qed

lemma allocate_segment_Inr:
  assumes "allocate_segment tbl = Inr (i, tbl')"
  shows "i < length tbl" "\<not> tbl ! i" "\<forall>j<i. tbl ! j" "tbl' = tbl[i := True]"
  using assms first_clear_bit_Some [of tbl i]
  by (auto simp: allocate_segment_def split: option.splits)

lemma allocate_segment_Inl:
  "allocate_segment tbl = Inl e \<longleftrightarrow> e = NoFreeSegment \<and> (\<forall>i<length tbl. tbl ! i)"
  using first_clear_bit_None [of tbl]
  by (auto simp: allocate_segment_def split: option.splits)

lemma allocate_segments_unused:
  "Inr i \<in> set (allocate_segments n tbl) \<Longrightarrow> i < length tbl \<and> \<not> tbl ! i"
proof (induction n arbitrary: tbl)
  case 0
  then show ?case by simp
next
  case (Suc n)
  show ?case
  proof (cases "allocate_segment tbl")
    case (Inl e)
    with Suc.prems have "Inr i \<in> set (allocate_segments n tbl)" by auto
    then show ?thesis by (rule Suc.IH)
  next
    case (Inr p)
    obtain k tbl' where p: "p = (k, tbl')" by (cases p)
    note a = allocate_segment_Inr [OF Inr [unfolded p]]
    from Suc.prems Inr p have "i = k \<or> Inr i \<in> set (allocate_segments n tbl')" by auto
    then show ?thesis
    proof
      assume "i = k"
      with a show ?thesis by simp
    next
      assume "Inr i \<in> set (allocate_segments n tbl')"
      from Suc.IH [OF this] a show ?thesis
        by (auto simp: nth_list_update split: if_splits)
    qed
  qed
qed

lemma set_returned_ids: "set (returned_ids rs) = {i. Inr i \<in> set rs}"
  by (induction rs rule: returned_ids.induct) auto

lemma allocate_segments_distinct: "distinct (returned_ids (allocate_segments n tbl))"
proof (induction n arbitrary: tbl)
  case 0
  then show ?case by simp
next
  case (Suc n)
  show ?case
  proof (cases "allocate_segment tbl")
    case (Inl e)
    then show ?thesis using Suc.IH [of tbl] by simp
  next
    case (Inr p)
    obtain k tbl' where p: "p = (k, tbl')" by (cases p)
    note a = allocate_segment_Inr [OF Inr [unfolded p]]
    have "k \<notin> set (returned_ids (allocate_segments n tbl'))"
    proof
      assume "k \<in> set (returned_ids (allocate_segments n tbl'))"
      then have "Inr k \<in> set (allocate_segments n tbl')"
        by (simp add: set_returned_ids)
      from allocate_segments_unused [OF this] a show False by simp
    qed
    with Suc.IH [of tbl'] Inr p show ?thesis by simp
  qed
qed

lemma allocate_segment_twice:
  assumes "allocate_segment tbl = Inr (i, tbl')" and "allocate_segment tbl' = Inr (j, tbl'')"
  shows "i \<noteq> j"
proof
  assume "i = j"
  from allocate_segment_Inr [OF assms(1)] have "i < length tbl" "tbl' = tbl[i := True]"
    by simp_all
  then have "tbl' ! i" by simp
  moreover from allocate_segment_Inr(2) [OF assms(2)] have "\<not> tbl' ! j" .
  ultimately show False using \<open>i = j\<close> by simp
qed

text \<open>
  C4: a call of \<open>allocate_segment\<close> takes the first clear bit of the segment-usage
  bitset and sets it; with the allocation lock making each call one step, the calls of
  concurrent callers happen one after the other in the order of the lock, and then no two
  of them return the same segment id: not two calls in a row, and no two among any number
  of calls. With no clear bit the call fails with the capacity error instead of returning
  a segment, and it fails for no other reason.
\<close>

theorem allocate_segment_never_repeats:
  "(allocate_segment tbl = Inr (i, tbl') \<longrightarrow>
      i < length tbl \<and> \<not> tbl ! i \<and> (\<forall>k<i. tbl ! k) \<and> tbl' = tbl[i := True])
   \<and> (allocate_segment tbl = Inr (i, tbl') \<and> allocate_segment tbl' = Inr (j, tbl'') \<longrightarrow> i \<noteq> j)
   \<and> distinct (returned_ids (allocate_segments n tbl))
   \<and> ((\<forall>k<length tbl. tbl ! k) \<longrightarrow> allocate_segment tbl = Inl NoFreeSegment)
   \<and> (allocate_segment tbl = Inl e \<longrightarrow> e = NoFreeSegment \<and> (\<forall>k<length tbl. tbl ! k))"
  using allocate_segment_Inr [of tbl i tbl'] allocate_segment_twice [of tbl i tbl' j tbl'']
    allocate_segments_distinct [of n tbl]
    allocate_segment_Inl [of tbl NoFreeSegment] allocate_segment_Inl [of tbl e]
  by blast

text \<open>
  On a bitset of four segments with segments 0 and 2 in use, three calls return segment 1,
  segment 3 and the capacity error.
\<close>

theorem allocate_segment_never_repeats_witness:
  "allocate_segment [True, False, True, False] = Inr (1, [True, True, True, False])
   \<and> allocate_segment [True, True, True, False] = Inr (3, [True, True, True, True])
   \<and> (1 :: nat) \<noteq> 3
   \<and> allocate_segments 3 [True, False, True, False] = [Inr 1, Inr 3, Inl NoFreeSegment]
   \<and> distinct (returned_ids (allocate_segments 3 [True, False, True, False]))
   \<and> allocate_segment [True, True, True, True] = Inl NoFreeSegment"
proof -
  have one: "allocate_segment [True, False, True, False] = Inr (1, [True, True, True, False])"
    by (simp add: allocate_segment_def)
  have two: "allocate_segment [True, True, True, False] = Inr (3, [True, True, True, True])"
    by (simp add: allocate_segment_def)
  have three: "allocate_segments 3 [True, False, True, False] = [Inr 1, Inr 3, Inl NoFreeSegment]"
    by (simp add: allocate_segment_def eval_nat_numeral)
  have full: "\<forall>k<length [True, True, True, True]. [True, True, True, True] ! k"
    by (simp add: nth_Cons split: nat.splits)
  note t = allocate_segment_never_repeats [where tbl = "[True, False, True, False]" and i = 1
      and tbl' = "[True, True, True, False]" and j = 3 and tbl'' = "[True, True, True, True]"
      and n = 3]
  from t one two have "(1 :: nat) \<noteq> 3
      \<and> distinct (returned_ids (allocate_segments 3 [True, False, True, False]))"
    by blast
  moreover
  from allocate_segment_never_repeats [where tbl = "[True, True, True, True]"] full
  have "allocate_segment [True, True, True, True] = Inl NoFreeSegment"
    by blast
  ultimately show ?thesis
    using one two three by blast
qed

section \<open>Metadata store\<close>

lemma find_free_entry_Some:
  "find_free_entry es = Some k \<Longrightarrow> k < length es \<and> \<not> inuse (log_metadata_info (es ! k))"
proof (induction es arbitrary: k)
  case Nil
  then show ?case by simp
next
  case (Cons e es)
  show ?case
  proof (cases "inuse (log_metadata_info e)")
    case True
    with Cons.prems obtain j where j: "find_free_entry es = Some j" and k: "k = Suc j"
      by auto
    from Cons.IH [OF j] k show ?thesis by simp
  next
    case False
    with Cons.prems show ?thesis by simp
  qed
qed

lemma filter_upt_single: "k < n \<Longrightarrow> filter (\<lambda>j. j = k) [0..<n] = [k]"
  by (induction n) (auto simp: less_Suc_eq filter_empty_conv)

lemma unat_slot_index:
  assumes "k < length es" "length es \<le> unat SPDK_NUM_LOGS_SUPPORTED"
  shows "unat (of_nat k :: u32) = k"
proof -
  from assms have "k < 1024" by (simp add: SPDK_NUM_LOGS_SUPPORTED_value)
  then show ?thesis by (simp add: unat_of_nat)
qed

lemma assign_slot_known:
  "log_name_to_id pt nm = Some i \<Longrightarrow> assign_slot nm pt = Inr (i, pt)"
  by (simp add: assign_slot_def)

lemma assign_slot_records:
  "assign_slot nm pt = Inr (i, pt1) \<Longrightarrow> log_name_to_id pt1 nm = Some i"
  by (auto simp: assign_slot_def split: option.splits)

lemma assign_slot_keeps:
  "assign_slot nm' pt = Inr (j, pt1) \<Longrightarrow> log_name_to_id pt nm = Some i
     \<Longrightarrow> log_name_to_id pt1 nm = Some i"
  by (auto simp: assign_slot_def split: option.splits)

lemma assign_slots_keeps:
  "log_name_to_id pt nm = Some i \<Longrightarrow> log_name_to_id (assign_slots nms pt) nm = Some i"
proof (induction nms arbitrary: pt)
  case Nil
  then show ?case by simp
next
  case (Cons n nms)
  show ?case
  proof (cases "assign_slot n pt")
    case (Inl e)
    with Cons show ?thesis by simp
  next
    case (Inr p)
    obtain j pt1 where p: "p = (j, pt1)" by (cases p)
    from assign_slot_keeps [OF Inr [unfolded p] Cons.prems]
    have "log_name_to_id (assign_slots nms pt1) nm = Some i" by (rule Cons.IH)
    with Inr p show ?thesis by simp
  qed
qed

lemma assign_slot_twice:
  assumes "assign_slot nm pt = Inr (i, pt1)"
  shows "assign_slot nm pt1 = Inr (i, pt1)"
  by (rule assign_slot_known) (rule assign_slot_records [OF assms])

lemma assign_slot_again_later:
  assumes "assign_slot nm pt = Inr (i, pt1)"
  shows "assign_slot nm (assign_slots nms pt1) = Inr (i, assign_slots nms pt1)"
  by (rule assign_slot_known) (rule assign_slots_keeps [OF assign_slot_records [OF assms]])

lemma load_twice:
  assumes "load nm pt = Inr (v, pt1)"
  shows "load nm pt1 = Inr (v, pt1)"
proof -
  from assms obtain i where a: "assign_slot nm pt = Inr (i, pt1)"
    and v: "v = \<lparr>persist_metadata_info = log_metadata_info (global_metadata pt1 ! unat i)\<rparr>"
    by (auto simp: load_def split: sum.splits)
  from assign_slot_twice [OF a] v show ?thesis by (simp add: load_def)
qed

lemma slots_of_fresh:
  assumes k: "k < length (global_metadata pt)"
    and free: "\<not> inuse (log_metadata_info (global_metadata pt ! k))"
    and pt1: "pt1 = pt\<lparr>global_metadata :=
                         (global_metadata pt)[k := mark_in_use nm (global_metadata pt ! k)],
                       log_name_to_id := m\<rparr>"
  shows "slots_of n pt1 =
           (if n = nm
            then filter (\<lambda>j. j = k \<or> j \<in> set (slots_of nm pt)) [0..<length (global_metadata pt)]
            else slots_of n pt)"
  using k free unfolding slots_of_def pt1
  by (auto intro!: filter_cong simp: nth_list_update mark_in_use_def)

lemma assign_slot_consistent:
  assumes c: "consistent pt" and a: "assign_slot nm pt = Inr (i, pt1)"
  shows "consistent pt1 \<and> slots_of nm pt1 = [unat i]"
proof (cases "log_name_to_id pt nm")
  case (Some j)
  with a have "i = j" "pt1 = pt" by (simp_all add: assign_slot_def)
  with c Some show ?thesis by (simp add: consistent_def)
next
  case None
  with a obtain k where f: "find_free_entry (global_metadata pt) = Some k"
    and i: "i = of_nat k"
    and pt1: "pt1 = pt\<lparr>global_metadata :=
                         (global_metadata pt)[k := mark_in_use nm (global_metadata pt ! k)],
                       log_name_to_id := (log_name_to_id pt)(nm \<mapsto> of_nat k)\<rparr>"
    by (auto simp: assign_slot_def split: option.splits)
  from find_free_entry_Some [OF f]
  have k: "k < length (global_metadata pt)"
    and free: "\<not> inuse (log_metadata_info (global_metadata pt ! k))" by simp_all
  from c have len: "length (global_metadata pt) \<le> unat SPDK_NUM_LOGS_SUPPORTED"
    by (simp add: consistent_def)
  have u: "unat i = k" using unat_slot_index [OF k len] i by simp
  from c None have none: "slots_of nm pt = []" by (simp add: consistent_def)
  note s = slots_of_fresh [OF k free pt1]
  have own: "slots_of nm pt1 = [k]"
    using s [of nm] none filter_upt_single [OF k] by simp
  have other: "slots_of n pt1 = slots_of n pt" if "n \<noteq> nm" for n
    using s [of n] that by simp
  have "consistent pt1"
    unfolding consistent_def
  proof (intro conjI allI impI)
    show "length (global_metadata pt1) \<le> unat SPDK_NUM_LOGS_SUPPORTED"
      using len by (simp add: pt1)
  next
    fix n j
    assume "log_name_to_id pt1 n = Some j"
    then show "slots_of n pt1 = [unat j]"
      using c own other [of n] u i
      by (cases "n = nm") (auto simp: pt1 consistent_def)
  next
    fix n
    assume "log_name_to_id pt1 n = None"
    then show "slots_of n pt1 = []"
      using c other [of n]
      by (cases "n = nm") (auto simp: pt1 consistent_def)
  qed
  with own u show ?thesis by simp
qed

lemma assign_slots_consistent: "consistent pt \<Longrightarrow> consistent (assign_slots nms pt)"
proof (induction nms arbitrary: pt)
  case Nil
  then show ?case by simp
next
  case (Cons n nms)
  show ?case
  proof (cases "assign_slot n pt")
    case (Inl e)
    with Cons show ?thesis by simp
  next
    case (Inr p)
    obtain j pt1 where p: "p = (j, pt1)" by (cases p)
    from assign_slot_consistent [OF Cons.prems Inr [unfolded p]]
    have "consistent (assign_slots nms pt1)" by (intro Cons.IH) simp
    with Inr p show ?thesis by simp
  qed
qed

text \<open>
  C3: a slot assignment that returned slot \<open>i\<close> for a name returns \<open>i\<close> again
  and changes nothing when repeated, at once or after assignments for other names, and so
  does \<open>load\<close> with its view; where the map and the array agree, the name's slot
  is the one in-use entry that carries the name, so no second slot is assigned.
\<close>

theorem slot_assignment_idempotent:
  "(assign_slot nm pt = Inr (i, pt1) \<longrightarrow>
      assign_slot nm pt1 = Inr (i, pt1)
      \<and> assign_slot nm (assign_slots nms pt1) = Inr (i, assign_slots nms pt1))
   \<and> (load nm pt = Inr (v, pt1) \<longrightarrow> load nm pt1 = Inr (v, pt1))
   \<and> (consistent pt \<and> assign_slot nm pt = Inr (i, pt1) \<longrightarrow>
        slots_of nm pt1 = [unat i] \<and> slots_of nm (assign_slots nms pt1) = [unat i])"
proof -
  have "slots_of nm (assign_slots nms pt1) = [unat i]"
    if c: "consistent pt" and a: "assign_slot nm pt = Inr (i, pt1)"
  proof -
    from assign_slot_consistent [OF c a] have "consistent pt1" by simp
    then have "consistent (assign_slots nms pt1)" by (rule assign_slots_consistent)
    moreover have "log_name_to_id (assign_slots nms pt1) nm = Some i"
      by (rule assign_slots_keeps [OF assign_slot_records [OF a]])
    ultimately show ?thesis by (simp add: consistent_def)
  qed
  then show ?thesis
    using assign_slot_twice [of nm pt i pt1] assign_slot_again_later [of nm pt i pt1 nms]
      load_twice [of nm pt v pt1] assign_slot_consistent [of pt nm i pt1]
    by blast
qed

text \<open>
  With entry 0 in use by log B and entry 1 free, log A gets slot 1, and gets it again after
  further assignments for B and for a third log that finds no free entry.
\<close>

theorem slot_assignment_idempotent_witness:
  "consistent
     (idle\<lparr>global_metadata :=
             [\<lparr>log_metadata_address = \<lparr>segment_log_entry_at_table = [], segment_data_at_table = []\<rparr>,
               log_metadata_info = \<lparr>name = [66], id' = 0, head = 0, tail = 0, ver = 0, inuse = True\<rparr>\<rparr>,
              \<lparr>log_metadata_address = \<lparr>segment_log_entry_at_table = [], segment_data_at_table = []\<rparr>,
               log_metadata_info = \<lparr>name = [], id' = 0, head = 0, tail = 0, ver = 0, inuse = False\<rparr>\<rparr>],
           log_name_to_id := [[66] \<mapsto> 0]\<rparr>)
   \<and> (case assign_slot [65]
         (idle\<lparr>global_metadata :=
             [\<lparr>log_metadata_address = \<lparr>segment_log_entry_at_table = [], segment_data_at_table = []\<rparr>,
               log_metadata_info = \<lparr>name = [66], id' = 0, head = 0, tail = 0, ver = 0, inuse = True\<rparr>\<rparr>,
              \<lparr>log_metadata_address = \<lparr>segment_log_entry_at_table = [], segment_data_at_table = []\<rparr>,
               log_metadata_info = \<lparr>name = [], id' = 0, head = 0, tail = 0, ver = 0, inuse = False\<rparr>\<rparr>],
           log_name_to_id := [[66] \<mapsto> 0]\<rparr>) of
         Inl e \<Rightarrow> False
       | Inr (i, pt1) \<Rightarrow>
           i = 1
           \<and> assign_slot [65] pt1 = Inr (1, pt1)
           \<and> assign_slot [65] (assign_slots [[66], [67]] pt1) = Inr (1, assign_slots [[66], [67]] pt1)
           \<and> slots_of [65] pt1 = [1]
           \<and> slots_of [65] (assign_slots [[66], [67]] pt1) = [1])"
proof -
  let ?used = "\<lparr>log_metadata_address = \<lparr>segment_log_entry_at_table = [], segment_data_at_table = []\<rparr>,
               log_metadata_info = \<lparr>name = [66], id' = 0, head = 0, tail = 0, ver = 0, inuse = True\<rparr>\<rparr>"
  let ?free = "\<lparr>log_metadata_address = \<lparr>segment_log_entry_at_table = [], segment_data_at_table = []\<rparr>,
               log_metadata_info = \<lparr>name = [], id' = 0, head = 0, tail = 0, ver = 0, inuse = False\<rparr>\<rparr>"
  let ?pt = "idle\<lparr>global_metadata := [?used, ?free], log_name_to_id := [[66] \<mapsto> 0]\<rparr>"
  let ?pt1 = "?pt\<lparr>global_metadata := [?used, mark_in_use [65] ?free],
                 log_name_to_id := [[66] \<mapsto> 0, [65] \<mapsto> 1]\<rparr>"
  have c: "consistent ?pt"
    by (simp add: consistent_def slots_of_def idle_def SPDK_NUM_LOGS_SUPPORTED_value)
  have a: "assign_slot [65] ?pt = Inr (1, ?pt1)"
    by (simp add: assign_slot_def idle_def)
  from slot_assignment_idempotent [of "[65]" ?pt 1 ?pt1 "[[66], [67]]"] c a
  have "assign_slot [65] ?pt1 = Inr (1, ?pt1)
      \<and> assign_slot [65] (assign_slots [[66], [67]] ?pt1) = Inr (1, assign_slots [[66], [67]] ?pt1)
      \<and> slots_of [65] ?pt1 = [1]
      \<and> slots_of [65] (assign_slots [[66], [67]] ?pt1) = [1]"
    by simp
  with c a show ?thesis by simp
qed

section \<open>Atomic write coordinator\<close>

lemma run_append: "run (evs @ evs') st = run evs' (run evs st)"
  by (induction evs st rule: run.induct) simp_all

lemma fired_append: "fired c (evs @ evs') = fired c evs @ fired c evs'"
  by (induction c evs rule: fired.induct) simp_all

lemma callbacks_of_append:
  "callbacks_of a (evs @ evs') \<longleftrightarrow> callbacks_of a evs \<and> callbacks_of a evs'"
  by (induction a evs rule: callbacks_of.induct) auto

lemma trace_of_snoc:
  assumes "trace_of a (evs @ [e])"
  shows "trace_of a evs"
  using assms by (auto simp: trace_of_def fired_append callbacks_of_append)

lemma trace_of_snoc_Complete:
  assumes "trace_of a (evs @ [Complete b cpl])"
  shows "completed b = completed a \<Longrightarrow>
           same_operation b a \<and> int (length (fired (completed a) evs)) < num_sub_req a"
    and "completed b \<noteq> completed a \<Longrightarrow> metadata_write b \<noteq> metadata_write a"
  using assms by (auto simp: trace_of_def fired_append callbacks_of_append)

lemma same_operation_metadata_write: "same_operation b a \<Longrightarrow> metadata_write b = metadata_write a"
  by (simp add: same_operation_def metadata_write_def)

lemma progress_run:
  assumes init: "completed a < next_atomic st" "atomics st (completed a) = 0"
      "completed a \<notin> failed st" "metadata_write a \<notin> set (metadata_io_queue st)"
    and pos: "0 < num_sub_req a"
  shows "trace_of a evs \<Longrightarrow> progress a evs st (run evs st)"
proof (induction evs rule: rev_induct)
  case Nil
  with init pos show ?case by (simp add: progress_def)
next
  case (snoc e evs)
  from snoc.IH [OF trace_of_snoc [OF snoc.prems]]
  have ih: "progress a evs st (run evs st)" .
  show ?case
  proof (cases e)
    case (Submit sub_requests metadata i)
    show ?thesis
      using ih unfolding Submit run_append progress_def fired_append
      by (auto simp: atomic_w_def Let_def)
  next
    case (Complete b cpl)
    note t = trace_of_snoc_Complete [OF snoc.prems [unfolded Complete]]
    show ?thesis
    proof (cases "completed b = completed a")
      case True
      from t(1) [OF True] have so: "same_operation b a"
        and lt: "int (length (fired (completed a) evs)) < num_sub_req a" by simp_all
      from so have n: "num_sub_req b = num_sub_req a" by (simp add: same_operation_def)
      show ?thesis
        using ih lt True n same_operation_metadata_write [OF so]
        unfolding Complete run_append progress_def fired_append
        by (auto simp: data_write_request_complete_def outstanding_def Let_def)
    next
      case False
      from t(2) [OF False] have ne: "metadata_write b \<noteq> metadata_write a" .
      show ?thesis
        using ih False ne
        unfolding Complete run_append progress_def fired_append
        by (auto simp: data_write_request_complete_def outstanding_def Let_def)
    qed
  qed
qed

lemma atomic_w_initial:
  assumes "next_atomic st \<notin> failed st"
    and "a = sub_request_args i (PTLogMetadataInfo.ver metadata) (next_atomic st)
               (int (length sub_requests)) r"
    and "metadata_write a \<notin> set (metadata_io_queue st)"
  shows "completed a < next_atomic (atomic_w sub_requests metadata i st)"
    and "atomics (atomic_w sub_requests metadata i st) (completed a) = 0"
    and "completed a \<notin> failed (atomic_w sub_requests metadata i st)"
    and "metadata_write a \<notin> set (metadata_io_queue (atomic_w sub_requests metadata i st))"
    and "num_sub_req a = int (length sub_requests)"
  using assms by (simp_all add: atomic_w_def sub_request_args_def Let_def)

text \<open>
  C1: an atomic write starts with an outstanding count equal to its number of
  sub-requests, and every completion callback that fires on it takes one off. In every
  interleaving with other submissions and other operations' callbacks, the operation's
  metadata write is in the metadata queue exactly when the count has reached zero, that is
  when every sub-request's callback has fired, and none of them reported a device error.
  If one did, the operation is marked failed and its metadata write is never enqueued;
  \<open>last_written_ver\<close> is not touched by any of this.
\<close>

theorem metadata_write_follows_completions:
  assumes subs: "sub_requests \<noteq> []"
    and fresh: "next_atomic st \<notin> failed st"
    and a: "a = sub_request_args i (PTLogMetadataInfo.ver metadata) (next_atomic st)
               (int (length sub_requests)) r"
    and unqueued: "metadata_write a \<notin> set (metadata_io_queue st)"
    and trace: "trace_of a evs"
  shows "outstanding a (atomic_w sub_requests metadata i st) = int (length sub_requests)
         \<and> outstanding a (run (Submit sub_requests metadata i # evs) st)
             = int (length sub_requests) - int (length (fired (completed a) evs))
         \<and> (metadata_write a \<in> set (metadata_io_queue (run (Submit sub_requests metadata i # evs) st))
              \<longleftrightarrow> outstanding a (run (Submit sub_requests metadata i # evs) st) = 0
                  \<and> DeviceError \<notin> set (fired (completed a) evs))
         \<and> (DeviceError \<in> set (fired (completed a) evs)
              \<longrightarrow> completed a \<in> failed (run (Submit sub_requests metadata i # evs) st)
                  \<and> metadata_write a
                      \<notin> set (metadata_io_queue (run (Submit sub_requests metadata i # evs) st)))
         \<and> last_written_ver (run (Submit sub_requests metadata i # evs) st) = last_written_ver st"
proof -
  let ?st1 = "atomic_w sub_requests metadata i st"
  note i = atomic_w_initial [OF fresh a unqueued]
  from subs i(5) have pos: "0 < num_sub_req a" by simp
  from progress_run [OF i(1-4) pos trace]
  have p: "progress a evs ?st1 (run evs ?st1)" .
  have l: "last_written_ver ?st1 = last_written_ver st"
    by (simp add: atomic_w_def Let_def)
  from p l i(2,5) show ?thesis
    by (auto simp: progress_def outstanding_def)
qed

text \<open>
  An append of two sub-requests: after one successful completion the count is 1 and no
  metadata write is queued; after both, completing out of order, it is queued; with a
  device error on one, the operation is failed and nothing is queued.
\<close>

theorem metadata_write_follows_completions_witness:
  "outstanding
      (sub_request_args 0 1 0 2 \<lparr>data_length = 5, virtaddress = 0, content_type = 1\<rparr>)
      (run [Submit [\<lparr>data_length = 5, virtaddress = 0, content_type = 1\<rparr>,
                    \<lparr>data_length = 64, virtaddress = 0, content_type = 0\<rparr>]
              \<lparr>name = [65], id' = 0, head = 0, tail = 1, ver = 1, inuse = True\<rparr> 0,
            Complete (sub_request_args 0 1 0 2 \<lparr>data_length = 64, virtaddress = 0, content_type = 0\<rparr>)
              Success] idle) = 1
   \<and> metadata_write (sub_request_args 0 1 0 2 \<lparr>data_length = 5, virtaddress = 0, content_type = 1\<rparr>)
       \<notin> set (metadata_io_queue
          (run [Submit [\<lparr>data_length = 5, virtaddress = 0, content_type = 1\<rparr>,
                        \<lparr>data_length = 64, virtaddress = 0, content_type = 0\<rparr>]
                  \<lparr>name = [65], id' = 0, head = 0, tail = 1, ver = 1, inuse = True\<rparr> 0,
                Complete (sub_request_args 0 1 0 2 \<lparr>data_length = 64, virtaddress = 0, content_type = 0\<rparr>)
                  Success] idle))
   \<and> metadata_write (sub_request_args 0 1 0 2 \<lparr>data_length = 5, virtaddress = 0, content_type = 1\<rparr>)
       \<in> set (metadata_io_queue
          (run [Submit [\<lparr>data_length = 5, virtaddress = 0, content_type = 1\<rparr>,
                        \<lparr>data_length = 64, virtaddress = 0, content_type = 0\<rparr>]
                  \<lparr>name = [65], id' = 0, head = 0, tail = 1, ver = 1, inuse = True\<rparr> 0,
                Complete (sub_request_args 0 1 0 2 \<lparr>data_length = 64, virtaddress = 0, content_type = 0\<rparr>)
                  Success,
                Complete (sub_request_args 0 1 0 2 \<lparr>data_length = 5, virtaddress = 0, content_type = 1\<rparr>)
                  Success] idle))
   \<and> completed (sub_request_args 0 1 0 2 \<lparr>data_length = 5, virtaddress = 0, content_type = 1\<rparr>)
       \<in> failed
          (run [Submit [\<lparr>data_length = 5, virtaddress = 0, content_type = 1\<rparr>,
                        \<lparr>data_length = 64, virtaddress = 0, content_type = 0\<rparr>]
                  \<lparr>name = [65], id' = 0, head = 0, tail = 1, ver = 1, inuse = True\<rparr> 0,
                Complete (sub_request_args 0 1 0 2 \<lparr>data_length = 5, virtaddress = 0, content_type = 1\<rparr>)
                  DeviceError,
                Complete (sub_request_args 0 1 0 2 \<lparr>data_length = 64, virtaddress = 0, content_type = 0\<rparr>)
                  Success] idle)
   \<and> metadata_write (sub_request_args 0 1 0 2 \<lparr>data_length = 5, virtaddress = 0, content_type = 1\<rparr>)
       \<notin> set (metadata_io_queue
          (run [Submit [\<lparr>data_length = 5, virtaddress = 0, content_type = 1\<rparr>,
                        \<lparr>data_length = 64, virtaddress = 0, content_type = 0\<rparr>]
                  \<lparr>name = [65], id' = 0, head = 0, tail = 1, ver = 1, inuse = True\<rparr> 0,
                Complete (sub_request_args 0 1 0 2 \<lparr>data_length = 5, virtaddress = 0, content_type = 1\<rparr>)
                  DeviceError,
                Complete (sub_request_args 0 1 0 2 \<lparr>data_length = 64, virtaddress = 0, content_type = 0\<rparr>)
                  Success] idle))"
proof -
  let ?data = "\<lparr>data_length = 5, virtaddress = 0, content_type = 1\<rparr>"
  let ?entry = "\<lparr>data_length = 64, virtaddress = 0, content_type = 0\<rparr>"
  let ?md = "\<lparr>name = [65], id' = 0, head = 0, tail = 1, ver = 1, inuse = True\<rparr>"
  let ?a = "sub_request_args 0 1 0 2 ?data"
  let ?b = "sub_request_args 0 1 0 2 ?entry"
  have subs: "[?data, ?entry] \<noteq> []"
    by simp
  have fresh: "next_atomic idle \<notin> failed idle"
    by (simp add: idle_def)
  have a: "?a = sub_request_args 0 (PTLogMetadataInfo.ver ?md) (next_atomic idle)
                  (int (length [?data, ?entry])) ?data"
    by (simp add: idle_def)
  have unqueued: "metadata_write ?a \<notin> set (metadata_io_queue idle)"
    by (simp add: idle_def)
  have one: "trace_of ?a [Complete ?b Success]"
    and both: "trace_of ?a [Complete ?b Success, Complete ?a Success]"
    and bad: "trace_of ?a [Complete ?a DeviceError, Complete ?b Success]"
    by (simp_all add: trace_of_def same_operation_def sub_request_args_def)
  have f1: "fired (completed ?a) [Complete ?b Success] = [Success]"
    and f2: "fired (completed ?a) [Complete ?b Success, Complete ?a Success] = [Success, Success]"
    and f3: "fired (completed ?a) [Complete ?a DeviceError, Complete ?b Success]
               = [DeviceError, Success]"
    by (simp_all add: sub_request_args_def)
  note t1 = metadata_write_follows_completions [OF subs fresh a unqueued one]
  note t2 = metadata_write_follows_completions [OF subs fresh a unqueued both]
  note t3 = metadata_write_follows_completions [OF subs fresh a unqueued bad]
  from t1 have "outstanding ?a (run [Submit [?data, ?entry] ?md 0, Complete ?b Success] idle) = 1
      \<and> metadata_write ?a
          \<notin> set (metadata_io_queue (run [Submit [?data, ?entry] ?md 0, Complete ?b Success] idle))"
    unfolding f1 by simp
  moreover from t2 have "metadata_write ?a
      \<in> set (metadata_io_queue
           (run [Submit [?data, ?entry] ?md 0, Complete ?b Success, Complete ?a Success] idle))"
    unfolding f2 by simp
  moreover from t3 have "completed ?a
      \<in> failed (run [Submit [?data, ?entry] ?md 0, Complete ?a DeviceError, Complete ?b Success] idle)
      \<and> metadata_write ?a
          \<notin> set (metadata_io_queue
               (run [Submit [?data, ?entry] ?md 0, Complete ?a DeviceError, Complete ?b Success] idle))"
    unfolding f3 by simp
  ultimately show ?thesis
    by blast
qed

end
